theory Spec2Isabelle
  imports Complex_Main
begin

section \<open>YiThume: order clustering, batch assignment and earnings split\<close>

text \<open>
  The development embeds the dispatch engine of \<^verbatim>\<open>yithume-lite-pro.js\<close>. The repository
  holds two editions of that file: \<^verbatim>\<open>src/yithume-lite-pro.js\<close> (with the admin approval
  step) and \<^verbatim>\<open>src/unnamed/part_000\<close> (without it). The functions
  embedded here compute the same in both, except for one line, the eligibility filter of
  \<^verbatim>\<open>autoAssign\<close> (\<^verbatim>\<open>src/unnamed/part_000\<close> also names the steps of
  \<^verbatim>\<open>generateWeeklyPayouts\<close> as \<^verbatim>\<open>startOfMonday\<close>, \<^verbatim>\<open>endOfSunday\<close> and
  \<^verbatim>\<open>weekLabel\<close>, names that the model keeps); the edition is therefore a parameter of the
  model.

  Conventions of the embedding.
  \<^item> A JavaScript Number is an exact rational (\<^typ>\<open>rat\<close>); the rounding error of binary
    floating point is outside the model. Integral results (\<^verbatim>\<open>Math.round\<close>,
    \<^verbatim>\<open>Math.ceil\<close>, lengths) are \<^typ>\<open>int\<close> or \<^typ>\<open>nat\<close>.
  \<^item> The four localStorage collections are the fields of one state record; every operation
    takes the state and returns the new one (load, mutate, save).
  \<^item> \<^verbatim>\<open>Date.now()\<close>, \<^verbatim>\<open>Math.random()\<close> and \<^verbatim>\<open>nowISO()\<close> are
    inputs: each record that is created consumes one \<open>tick\<close> of an environment.
  \<^item> A Date is its local wall-clock time in milliseconds since 1970-01-01T00:00 local time,
    the time zone having a fixed offset (no daylight saving).
  \<^item> The \<^verbatim>\<open>yt-orders-updated\<close> event carries no data and is not modelled.
\<close>

subsection \<open>Configuration\<close>

text \<open>\<^verbatim>\<open>CONFIG.DRIVER_SHARE_FIRST: 1.00\<close> and \<^verbatim>\<open>CONFIG.DRIVER_SHARE_NEXT: 0.40\<close>.\<close>

definition DRIVER_SHARE_FIRST :: rat where
  "DRIVER_SHARE_FIRST = 1"

definition DRIVER_SHARE_NEXT :: rat where
  "DRIVER_SHARE_NEXT = 2 / 5"

subsection \<open>Built-ins of the language\<close>

text \<open>
  \<^verbatim>\<open>Math.round(x)\<close>: the integer closest to \<open>x\<close>; of two equally close integers the
  one towards \<open>+\<infinity>\<close>.
\<close>

definition Math_round :: "rat \<Rightarrow> int" where
  "Math_round x = \<lfloor>x + 1 / 2\<rfloor>"

text \<open>\<^verbatim>\<open>Math.ceil(x)\<close>.\<close>

definition Math_ceil :: "rat \<Rightarrow> int" where
  "Math_ceil x = \<lceil>x\<rceil>"

text \<open>
  Round-half-up in the words of the specification: the nearest integer, a fraction of exactly
  one half going up. This is the reference against which \<open>Math_round\<close> is compared.
\<close>

definition round_half_up :: "rat \<Rightarrow> int" where
  "round_half_up x = (if x - of_int \<lfloor>x\<rfloor> < 1 / 2 then \<lfloor>x\<rfloor> else \<lfloor>x\<rfloor> + 1)"

subsection \<open>EarningsSplitter\<close>

record earnings =
  driverTotal :: int
  platformDeliveryMargin :: int

text \<open>
  \<^verbatim>\<open>function computeClusterEarnings(n, feeEach)\<close>. The count \<open>n\<close> is an integer (a list
  length at the only call site); it is an \<^typ>\<open>int\<close> here so that \<^verbatim>\<open>Math.max(0, n-1)\<close>
  is the source's expression.
\<close>

definition computeClusterEarnings :: "int \<Rightarrow> rat \<Rightarrow> earnings" where
  "computeClusterEarnings n feeEach =
     (let first = feeEach * DRIVER_SHARE_FIRST;
          rest = of_int (max 0 (n - 1)) * feeEach * DRIVER_SHARE_NEXT;
          driverTotal = Math_round (first + rest);
          allFees = of_int n * feeEach;
          platformDeliveryMargin = Math_round (allFees - of_int driverTotal)
      in \<lparr>driverTotal = driverTotal, platformDeliveryMargin = platformDeliveryMargin\<rparr>)"



subsection \<open>Strings\<close>

text \<open>
  Strings are lists of 8-bit characters. \<^verbatim>\<open>toLowerCase\<close>, the class \<^verbatim>\<open>\s\<close> and
  \<^verbatim>\<open>trim\<close> are modelled on ASCII: the letters A to Z, and the white space characters
  space, tab, line feed, vertical tab, form feed and carriage return. What JavaScript does
  to characters beyond ASCII is outside the model.
\<close>

definition lower_char :: "char \<Rightarrow> char" where
  "lower_char c =
     (let n = (of_char c :: nat) in if 65 \<le> n \<and> n \<le> 90 then char_of (n + 32) else c)"

definition toLowerCase :: "string \<Rightarrow> string" where
  "toLowerCase s = map lower_char s"

definition isSpace :: "char \<Rightarrow> bool" where
  "isSpace c = (let n = (of_char c :: nat) in n = 32 \<or> (9 \<le> n \<and> n \<le> 13))"

text \<open>
  \<^verbatim>\<open>s.replace(/\s+/g, " ")\<close>: every maximal run of white space becomes one space. The
  flag says whether the previous character belonged to a run already replaced.
\<close>

fun collapse_from :: "bool \<Rightarrow> string \<Rightarrow> string" where
  "collapse_from inRun [] = []"
| "collapse_from inRun (c # cs) =
     (if isSpace c then (if inRun then collapse_from True cs else CHR '' '' # collapse_from True cs)
      else c # collapse_from False cs)"

definition collapse_ws :: "string \<Rightarrow> string" where
  "collapse_ws s = collapse_from False s"

definition trim :: "string \<Rightarrow> string" where
  "trim s = rev (dropWhile isSpace (rev (dropWhile isSpace s)))"

text \<open>\<^verbatim>\<open>String(n)\<close> and \<^verbatim>\<open>n.toString()\<close> for an integer \<open>n\<close> (decimal digits).\<close>

definition digit_char :: "int \<Rightarrow> char" where
  "digit_char n = char_of (48 + n mod 10)"

function show_digits :: "int \<Rightarrow> string" where
  "show_digits n =
     (if n < 10 then [digit_char n] else show_digits (n div 10) @ [digit_char (n mod 10)])"
  by pat_completeness auto
termination
  by (relation "measure nat") simp_all

declare show_digits.simps [simp del]

definition show_int :: "int \<Rightarrow> string" where
  "show_int i = (if i < 0 then CHR ''-'' # show_digits (- i) else show_digits i)"

text \<open>\<^verbatim>\<open>s.slice(-n)\<close>: the last \<open>n\<close> characters, the whole string when it is shorter.\<close>

definition slice_last :: "nat \<Rightarrow> string \<Rightarrow> string" where
  "slice_last n s = drop (length s - n) s"

text \<open>\<^verbatim>\<open>s.padStart(n, "0")\<close>.\<close>

definition padStart0 :: "nat \<Rightarrow> string \<Rightarrow> string" where
  "padStart0 n s = replicate (n - length s) (CHR ''0'') @ s"

subsection \<open>Dates\<close>

text \<open>
  Time values follow ECMAScript: \<open>Day\<close>, \<open>WeekDay\<close> (0 is Sunday; day 0 was a Thursday),
  \<open>DayFromYear\<close> and \<open>YearFromTime\<close> (the largest year whose first day is not after the
  given day, found here by stepping from an estimate).
\<close>

definition msPerDay :: int where
  "msPerDay = 86400000"

definition Day :: "int \<Rightarrow> int" where
  "Day t = t div msPerDay"

definition getDay :: "int \<Rightarrow> int" where
  "getDay t = (Day t + 4) mod 7"

definition DayFromYear :: "int \<Rightarrow> int" where
  "DayFromYear y =
     365 * (y - 1970) + (y - 1969) div 4 - (y - 1901) div 100 + (y - 1601) div 400"

lemma div_succ_lower: "0 < c \<Longrightarrow> (a::int) div c \<le> (a + 1) div c"
  by (rule zdiv_mono1) simp_all

lemma div_succ_upper:
  assumes "0 < c"
  shows "((a::int) + 1) div c \<le> a div c + 1"
proof -
  have "(a + 1) div c \<le> (a + c) div c"
    using assms by (intro zdiv_mono1) simp_all
  also have "\<dots> = a div c + 1"
    using assms by simp
  finally show ?thesis .
qed

lemma DayFromYear_step_bounds:
  "DayFromYear y + 364 \<le> DayFromYear (y + 1) \<and> DayFromYear (y + 1) \<le> DayFromYear y + 367"
proof -
  have a: "(y - 1969) div 4 \<le> (y + 1 - 1969) div 4"
      "(y + 1 - 1969) div 4 \<le> (y - 1969) div 4 + 1"
    using div_succ_lower [of 4 "y - 1969"] div_succ_upper [of 4 "y - 1969"]
    by (simp_all add: algebra_simps)
  have b: "(y - 1901) div 100 \<le> (y + 1 - 1901) div 100"
      "(y + 1 - 1901) div 100 \<le> (y - 1901) div 100 + 1"
    using div_succ_lower [of 100 "y - 1901"] div_succ_upper [of 100 "y - 1901"]
    by (simp_all add: algebra_simps)
  have c: "(y - 1601) div 400 \<le> (y + 1 - 1601) div 400"
      "(y + 1 - 1601) div 400 \<le> (y - 1601) div 400 + 1"
    using div_succ_lower [of 400 "y - 1601"] div_succ_upper [of 400 "y - 1601"]
    by (simp_all add: algebra_simps)
  have lin: "\<And>a a' b b' c c' :: int.
      a \<le> a' \<Longrightarrow> a' \<le> a + 1 \<Longrightarrow> b \<le> b' \<Longrightarrow> b' \<le> b + 1 \<Longrightarrow> c \<le> c' \<Longrightarrow> c' \<le> c + 1
      \<Longrightarrow> 365 * (y - 1970) + a - b + c + 364 \<le> 365 * (y + 1 - 1970) + a' - b' + c'
        \<and> 365 * (y + 1 - 1970) + a' - b' + c' \<le> 365 * (y - 1970) + a - b + c + 367"
    by (simp add: algebra_simps)
  show ?thesis
    unfolding DayFromYear_def by (rule lin [OF a b c])
qed

lemma DayFromYear_step: "DayFromYear y < DayFromYear (y + 1)"
  using DayFromYear_step_bounds [of y] by linarith

function year_up :: "int \<Rightarrow> int \<Rightarrow> int" where
  "year_up y d = (if DayFromYear (y + 1) \<le> d then year_up (y + 1) d else y)"
  by pat_completeness auto
termination
proof (relation "measure (\<lambda>(y, d). nat (d + 1 - DayFromYear (y + 1)))")
  show "wf (measure (\<lambda>(y, d). nat (d + 1 - DayFromYear (y + 1))))" by simp
next
  fix y d :: int
  assume a: "DayFromYear (y + 1) \<le> d"
  have b: "DayFromYear (y + 1) < DayFromYear (y + 1 + 1)"
    by (rule DayFromYear_step)
  from a b have "nat (d + 1 - DayFromYear (y + 1 + 1)) < nat (d + 1 - DayFromYear (y + 1))"
    by linarith
  then show "((y + 1, d), (y, d)) \<in> measure (\<lambda>(y, d). nat (d + 1 - DayFromYear (y + 1)))"
    by (simp only: in_measure prod.case)
qed

function year_down :: "int \<Rightarrow> int \<Rightarrow> int" where
  "year_down y d = (if d < DayFromYear y then year_down (y - 1) d else y)"
  by pat_completeness auto
termination
proof (relation "measure (\<lambda>(y, d). nat (DayFromYear y - d))")
  show "wf (measure (\<lambda>(y, d). nat (DayFromYear y - d)))" by simp
next
  fix y d :: int
  assume a: "d < DayFromYear y"
  have b: "DayFromYear (y - 1) < DayFromYear y"
    using DayFromYear_step [of "y - 1"] by simp
  from a b have "nat (DayFromYear (y - 1) - d) < nat (DayFromYear y - d)"
    by linarith
  then show "((y - 1, d), (y, d)) \<in> measure (\<lambda>(y, d). nat (DayFromYear y - d))"
    by (simp only: in_measure prod.case)
qed

declare year_up.simps [simp del] year_down.simps [simp del]

definition YearFromDay :: "int \<Rightarrow> int" where
  "YearFromDay d = year_down (year_up (1970 + d div 365) d) d"

text \<open>\<^verbatim>\<open>date.getFullYear()\<close>.\<close>

definition getFullYear :: "int \<Rightarrow> int" where
  "getFullYear t = YearFromDay (Day t)"

text \<open>
  \<^verbatim>\<open>new Date(y, 0, 1)\<close>: local midnight of 1 January; the constructor reads a year from
  0 to 99 as 1900 + y.
\<close>

definition newDateJan1 :: "int \<Rightarrow> int" where
  "newDateJan1 y = DayFromYear (if 0 \<le> y \<and> y \<le> 99 then 1900 + y else y) * msPerDay"

text \<open>\<^verbatim>\<open>date.setHours(h, m, s, ms)\<close>, on the local day of the date.\<close>

definition setHours :: "int \<Rightarrow> int \<Rightarrow> int \<Rightarrow> int \<Rightarrow> int \<Rightarrow> int" where
  "setHours t h m s ms = t - t mod msPerDay + ((h * 60 + m) * 60 + s) * 1000 + ms"

text \<open>\<^verbatim>\<open>date.setDate(date.getDate() + n)\<close>: \<open>n\<close> days later at the same time of day.\<close>

definition addDays :: "int \<Rightarrow> int \<Rightarrow> int" where
  "addDays t n = t + n * msPerDay"

text \<open>
  The ISO-8601 week label, in the words of the standard: a week starts on Monday and belongs
  to the year of its Thursday; weeks are numbered from 1 within that year. \<open>iso_week_label\<close>
  takes the Monday of the week. It is the reference for the label that the specification
  names; the code's own label is \<open>weekLabel\<close> below.
\<close>

definition iso_week_label :: "int \<Rightarrow> string" where
  "iso_week_label monday =
     (let thursday = Day monday + 3;
          isoYear = YearFromDay thursday;
          isoWeek = (thursday - DayFromYear isoYear) div 7 + 1
      in show_int isoYear @ ''-W'' @ padStart0 2 (show_int isoWeek))"

subsection \<open>Data model\<close>

datatype order_status = Pending | AwaitingPayment | Approved | Paid | Assigned | Delivered

datatype batch_status = BatchAssigned | BatchCompleted

datatype payout_status = PayoutPending | PayoutPaid

text \<open>
  Of an order the engine reads and writes the fields below (\<open>address\<close> is
  \<^verbatim>\<open>customer?.address\<close>, absent when \<open>None\<close>; the item list, totals and time stamps
  play no part). \<open>assigned_batch_id\<close> is \<open>None\<close> while the property is not set.
\<close>

record order =
  orderId :: string
  o_zone :: string
  address :: "string option"
  baseFee :: rat
  rushFee :: rat
  o_status :: order_status
  assigned_batch_id :: "string option"

record driver =
  d_id :: string
  d_name :: string
  d_phone :: string
  d_zone :: string
  is_active :: bool

record batch =
  b_id :: string
  b_zone :: string
  cluster_key :: string
  b_driver :: driver
  b_orders :: "string list"
  delivery_fee_each :: rat
  driver_earnings :: int
  platform_delivery_margin :: int
  b_status :: batch_status
  started_at :: int
  completed_at :: "int option"

record payout =
  p_id :: string
  week_label :: string
  p_from :: int
  p_to :: int
  p_driver :: driver
  p_earnings :: int
  orders_count :: nat
  batches_count :: nat
  p_status :: payout_status
  created_at :: int
  p_ref :: string

text \<open>The four collections of the store (\<^verbatim>\<open>KEYS.ORDERS\<close>, \<^verbatim>\<open>DRIVERS\<close>, \<^verbatim>\<open>BATCHES\<close>, \<^verbatim>\<open>PAYOUTS\<close>).\<close>

record state =
  orders :: "order list"
  drivers :: "driver list"
  batches :: "batch list"
  payouts :: "payout list"

text \<open>
  What one record creation reads from the environment: \<^verbatim>\<open>Date.now()\<close>,
  \<^verbatim>\<open>Math.floor(Math.random()*100)\<close> and the instant of \<^verbatim>\<open>nowISO()\<close>.
\<close>

record tick =
  clock :: int
  rnd :: nat
  stamp :: int

text \<open>
  The two editions of the source file: \<open>LitePro\<close> is \<^verbatim>\<open>src/yithume-lite-pro.js\<close>,
  \<open>Part000\<close> is \<^verbatim>\<open>src/unnamed/part_000\<close>.
\<close>

datatype edition = LitePro | Part000

subsection \<open>Array helpers\<close>

text \<open>\<^verbatim>\<open>xs.findIndex(p)\<close>: the first index whose element satisfies \<open>p\<close>; \<open>None\<close> is -1.\<close>

fun findIndex :: "('a \<Rightarrow> bool) \<Rightarrow> 'a list \<Rightarrow> nat option" where
  "findIndex p [] = None"
| "findIndex p (x # xs) = (if p x then Some 0 else map_option Suc (findIndex p xs))"

text \<open>A property holding a string is truthy when it is set and not empty.\<close>

definition truthy :: "string option \<Rightarrow> bool" where
  "truthy r = (case r of None \<Rightarrow> False | Some s \<Rightarrow> s \<noteq> [])"

subsection \<open>ClusterKeyBuilder and DriverDirectory\<close>

text \<open>
  \<^verbatim>\<open>const a = (order.customer?.address || "").toLowerCase().replace(/\s+/g," ").trim();\<close>
\<close>

definition clusterKey :: "order \<Rightarrow> string" where
  "clusterKey order =
     (let a = trim (collapse_ws (toLowerCase (case address order of None \<Rightarrow> [] | Some s \<Rightarrow> s)))
      in if a \<noteq> [] then o_zone order @ ''::'' @ a else o_zone order @ ''::zone-only'')"

text \<open>
  The normalisation in the words of the specification: lower-case the address, collapse
  consecutive white space to single spaces, trim.
\<close>

definition normalized_address :: "order \<Rightarrow> string" where
  "normalized_address order =
     trim (collapse_ws (toLowerCase (case address order of None \<Rightarrow> [] | Some s \<Rightarrow> s)))"

text \<open>
  \<^verbatim>\<open>drivers.find(d => d.zone === zone && d.is_active) || drivers[0] || null\<close>
\<close>

definition pickDriverForZone :: "driver list \<Rightarrow> string \<Rightarrow> driver option" where
  "pickDriverForZone ds zone =
     (case find (\<lambda>d. d_zone d = zone \<and> is_active d) ds of
        Some d \<Rightarrow> Some d
      | None \<Rightarrow> (case ds of [] \<Rightarrow> None | d # _ \<Rightarrow> Some d))"

subsection \<open>BatchAssigner\<close>

text \<open>\<^verbatim>\<open>const feeOf = o => Number(o.baseFee||0) + Number(o.rushFee||0);\<close>\<close>

definition feeOf :: "order \<Rightarrow> rat" where
  "feeOf od = baseFee od + rushFee od"

text \<open>
  The filter of \<^verbatim>\<open>autoAssign\<close>, the one line in which the editions differ:
  \<^verbatim>\<open>(o.status === "approved" || o.status === "paid") && !o.assigned_batch_id\<close> in
  \<^verbatim>\<open>src/yithume-lite-pro.js\<close>, and
  \<^verbatim>\<open>o.status === "paid" && !o.assigned_batch_id\<close> in \<^verbatim>\<open>src/unnamed/part_000\<close>.
\<close>

definition eligible :: "edition \<Rightarrow> order \<Rightarrow> bool" where
  "eligible ed od =
     ((case ed of
         LitePro \<Rightarrow> o_status od = Approved \<or> o_status od = Paid
       | Part000 \<Rightarrow> o_status od = Paid)
      \<and> \<not> truthy (assigned_batch_id od))"

definition candidates :: "edition \<Rightarrow> order list \<Rightarrow> order list" where
  "candidates ed os = filter (eligible ed) os"

text \<open>
  \<^verbatim>\<open>byKey\<close> is an object used as a dictionary; \<^verbatim>\<open>Object.keys\<close> lists its keys in
  insertion order (every key holds \<^verbatim>\<open>::\<close>, so none is an array index). It is an
  association list in insertion order. \<open>push_group\<close> is
  \<^verbatim>\<open>if (!byKey[k]) byKey[k] = []; byKey[k].push(o);\<close>
\<close>

fun push_group :: "string \<Rightarrow> order \<Rightarrow> (string \<times> order list) list \<Rightarrow> (string \<times> order list) list" where
  "push_group k od [] = [(k, [od])]"
| "push_group k od ((k', g) # rest) =
     (if k' = k then (k', g @ [od]) # rest else (k', g) # push_group k od rest)"

fun group_candidates :: "order list \<Rightarrow> (string \<times> order list) list \<Rightarrow> (string \<times> order list) list" where
  "group_candidates [] byKey = byKey"
| "group_candidates (od # os) byKey = group_candidates os (push_group (clusterKey od) od byKey)"

text \<open>
  The inner loop: for every order of the group, the first order of the store with the same
  identifier becomes \<open>Assigned\<close> and receives the batch identifier.
\<close>

fun assign_orders :: "string \<Rightarrow> order list \<Rightarrow> order list \<Rightarrow> order list" where
  "assign_orders bid [] os = os"
| "assign_orders bid (od # grp) os =
     assign_orders bid grp
       (case findIndex (\<lambda>x. orderId x = orderId od) os of
          None \<Rightarrow> os
        | Some idx \<Rightarrow> os[idx := (os ! idx)\<lparr>o_status := Assigned, assigned_batch_id := Some bid\<rparr>])"

text \<open>\<^verbatim>\<open>"BAT-"+Date.now().toString().slice(-6)+"-"+Math.floor(Math.random()*100)\<close>\<close>

definition batch_id :: "tick \<Rightarrow> string" where
  "batch_id t = ''BAT-'' @ slice_last 6 (show_int (clock t)) @ ''-'' @ show_int (int (rnd t))"

definition make_batch :: "tick \<Rightarrow> string \<Rightarrow> driver \<Rightarrow> order \<Rightarrow> order list \<Rightarrow> batch" where
  "make_batch t k drv first grp =
     (let zone = o_zone first;
          feeEach = feeOf first;
          e = computeClusterEarnings (int (length grp)) feeEach
      in \<lparr>b_id = batch_id t, b_zone = zone, cluster_key = k, b_driver = drv,
          b_orders = map orderId grp, delivery_fee_each = feeEach,
          driver_earnings = driverTotal e,
          platform_delivery_margin = platformDeliveryMargin e,
          b_status = BatchAssigned, started_at = stamp t, completed_at = None\<rparr>)"

text \<open>
  The outer loop over \<^verbatim>\<open>Object.keys(byKey)\<close>. The accumulator holds \<^verbatim>\<open>orders\<close>,
  \<^verbatim>\<open>batches\<close> and \<^verbatim>\<open>created\<close>. The groups hold the order objects of the store
  themselves; the loop reads their zone, fees and identifier, which no step writes, so the
  values read are those of the objects when the groups were built.
\<close>

fun assign_loop ::
  "(nat \<Rightarrow> tick) \<Rightarrow> driver list \<Rightarrow> (string \<times> order list) list \<Rightarrow>
     order list \<times> batch list \<times> batch list \<Rightarrow> order list \<times> batch list \<times> batch list" where
  "assign_loop env ds [] acc = acc"
| "assign_loop env ds ((k, grp) # rest) (os, bs, created) =
     (case grp of
        [] \<Rightarrow> assign_loop env ds rest (os, bs, created)
      | first # _ \<Rightarrow>
          (case pickDriverForZone ds (o_zone first) of
             None \<Rightarrow> assign_loop env ds rest (os, bs, created)
           | Some drv \<Rightarrow>
               (let b = make_batch (env (length created)) k drv first grp
                in assign_loop env ds rest
                     (assign_orders (b_id b) grp os, bs @ [b], created @ [b]))))"

definition autoAssign :: "edition \<Rightarrow> (nat \<Rightarrow> tick) \<Rightarrow> state \<Rightarrow> batch list \<times> state" where
  "autoAssign ed env st =
     (let byKey = group_candidates (candidates ed (orders st)) [];
          (os, bs, created) = assign_loop env (drivers st) byKey (orders st, batches st, [])
      in (created, st\<lparr>orders := os, batches := bs\<rparr>))"

subsection \<open>BatchLifecycle\<close>

fun deliver_orders :: "string list \<Rightarrow> order list \<Rightarrow> order list" where
  "deliver_orders [] os = os"
| "deliver_orders (oid # oids) os =
     deliver_orders oids
       (case findIndex (\<lambda>x. orderId x = oid) os of
          None \<Rightarrow> os
        | Some oIdx \<Rightarrow> os[oIdx := (os ! oIdx)\<lparr>o_status := Delivered\<rparr>])"

text \<open>
  \<^verbatim>\<open>completeBatch(batchId)\<close>; \<open>now\<close> is the instant of \<^verbatim>\<open>nowISO()\<close>. The result is
  the returned boolean and the store.
\<close>

definition completeBatch :: "string \<Rightarrow> int \<Rightarrow> state \<Rightarrow> bool \<times> state" where
  "completeBatch batchId now st =
     (case findIndex (\<lambda>b. b_id b = batchId) (batches st) of
        None \<Rightarrow> (False, st)
      | Some bIdx \<Rightarrow>
          (let os = deliver_orders (b_orders (batches st ! bIdx)) (orders st);
               bs = (batches st)[bIdx := (batches st ! bIdx)
                      \<lparr>b_status := BatchCompleted, completed_at := Some now\<rparr>]
           in (True, st\<lparr>orders := os, batches := bs\<rparr>)))"

subsection \<open>PayoutAggregator\<close>

definition startOfMonday :: "int \<Rightarrow> int" where
  "startOfMonday d =
     (let day = getDay d;
          diff = (day + 6) mod 7;
          date = setHours d 0 0 0 0
      in addDays date (- diff))"

definition endOfSunday :: "int \<Rightarrow> int" where
  "endOfSunday fromMonday = setHours (addDays fromMonday 6) 23 59 59 999"

text \<open>
  \<^verbatim>\<open>const week = Math.ceil((((d - onejan) / 86400000) + onejan.getDay()+1)/7);\<close>
\<close>

definition weekNumber :: "int \<Rightarrow> int" where
  "weekNumber d =
     (let onejan = newDateJan1 (getFullYear d)
      in Math_ceil ((of_int (d - onejan) / 86400000 + of_int (getDay onejan) + 1) / 7))"

definition weekLabel :: "int \<Rightarrow> string" where
  "weekLabel d = show_int (getFullYear d) @ ''-W'' @ padStart0 2 (show_int (weekNumber d))"

text \<open>
  \<^verbatim>\<open>b.status === "completed" && new Date(b.completed_at) >= monday && new Date(b.completed_at) <= sunday\<close>;
  a batch without completion time compares as false.
\<close>

definition inRange :: "int \<Rightarrow> int \<Rightarrow> batch \<Rightarrow> bool" where
  "inRange monday sunday b =
     (b_status b = BatchCompleted \<and>
      (case completed_at b of None \<Rightarrow> False | Some t \<Rightarrow> monday \<le> t \<and> t \<le> sunday))"

record payout_group =
  g_driver :: driver
  g_earnings :: int
  g_batches :: nat
  g_orders :: nat

definition bump_group :: "payout_group \<Rightarrow> batch \<Rightarrow> payout_group" where
  "bump_group g b =
     g\<lparr>g_earnings := g_earnings g + driver_earnings b,
       g_batches := g_batches g + 1,
       g_orders := g_orders g + length (b_orders b)\<rparr>"

text \<open>
  \<^verbatim>\<open>grouped\<close>, keyed by the driver identifier, in insertion order (identifiers are
  \<^verbatim>\<open>DRV-\<close> followed by digits, never array indices).
\<close>

fun add_batch :: "batch \<Rightarrow> (string \<times> payout_group) list \<Rightarrow> (string \<times> payout_group) list" where
  "add_batch b [] =
     [(d_id (b_driver b),
       bump_group \<lparr>g_driver = b_driver b, g_earnings = 0, g_batches = 0, g_orders = 0\<rparr> b)]"
| "add_batch b ((k, g) # rest) =
     (if k = d_id (b_driver b) then (k, bump_group g b) # rest else (k, g) # add_batch b rest)"

fun group_batches :: "batch list \<Rightarrow> (string \<times> payout_group) list \<Rightarrow> (string \<times> payout_group) list" where
  "group_batches [] grouped = grouped"
| "group_batches (b # bs) grouped = group_batches bs (add_batch b grouped)"

definition make_payout :: "tick \<Rightarrow> string \<Rightarrow> int \<Rightarrow> int \<Rightarrow> string \<Rightarrow> payout_group \<Rightarrow> payout" where
  "make_payout t week monday sunday ident g =
     \<lparr>p_id = ''PO-'' @ slice_last 6 (show_int (clock t)) @ ''-'' @ show_int (int (rnd t)),
      week_label = week, p_from = monday, p_to = sunday, p_driver = g_driver g,
      p_earnings = Math_round (of_int (g_earnings g)),
      orders_count = g_orders g, batches_count = g_batches g,
      p_status = PayoutPending, created_at = stamp t,
      p_ref = ''YI-'' @ week @ ''-'' @ slice_last 4 ident\<rparr>"

fun payout_loop ::
  "(nat \<Rightarrow> tick) \<Rightarrow> string \<Rightarrow> int \<Rightarrow> int \<Rightarrow> (string \<times> payout_group) list \<Rightarrow>
     payout list \<times> payout list \<Rightarrow> payout list \<times> payout list" where
  "payout_loop env week monday sunday [] acc = acc"
| "payout_loop env week monday sunday ((ident, g) # rest) (ps, out) =
     (let p = make_payout (env (length out)) week monday sunday ident g
      in payout_loop env week monday sunday rest (ps @ [p], out @ [p]))"

definition generateWeeklyPayouts :: "(nat \<Rightarrow> tick) \<Rightarrow> int \<Rightarrow> state \<Rightarrow> payout list \<times> state" where
  "generateWeeklyPayouts env forDate st =
     (let monday = startOfMonday forDate;
          sunday = endOfSunday monday;
          grouped = group_batches (filter (inRange monday sunday) (batches st)) [];
          week = weekLabel monday;
          (ps, out) = payout_loop env week monday sunday grouped (payouts st, [])
      in (out, st\<lparr>payouts := ps\<rparr>))"

subsection \<open>Notions used in the proofs\<close>


fun new_batches :: "(nat \<Rightarrow> tick) \<Rightarrow> driver list \<Rightarrow> (string \<times> order list) list \<Rightarrow> nat \<Rightarrow> batch list" where
  "new_batches env ds [] n = []"
| "new_batches env ds ((k, grp) # rest) n =
     (case grp of
        [] \<Rightarrow> new_batches env ds rest n
      | first # _ \<Rightarrow>
          (case pickDriverForZone ds (o_zone first) of
             None \<Rightarrow> new_batches env ds rest n
           | Some drv \<Rightarrow> make_batch (env n) k drv first grp # new_batches env ds rest (Suc n)))"



definition deliver_step :: "string \<Rightarrow> order list \<Rightarrow> order list" where
  "deliver_step oid os =
     (case findIndex (\<lambda>x. orderId x = oid) os of
        None \<Rightarrow> os
      | Some oIdx \<Rightarrow> os[oIdx := (os ! oIdx)\<lparr>o_status := Delivered\<rparr>])"

subsection \<open>Example stores\<close>

text \<open>
  Two paid orders of zone A whose addresses differ in capitals and white space, an approved
  order of zone B, a paid order with a fee of one half, and one driver, of zone B. The
  reference date 1609927200000 is Wednesday 6 January 2021, 10:00; 1609848000000 is Tuesday
  5 January 2021, 12:00.
\<close>

definition ex_env :: "nat \<Rightarrow> tick" where
  "ex_env n = \<lparr>clock = 1609848000000 + int n, rnd = 42, stamp = 1609848000000 + int n\<rparr>"

definition ex_o1 :: order where
  "ex_o1 = \<lparr>orderId = ''YI-000001'', o_zone = ''A'', address = Some ''12  Main St '',
     baseFee = 25, rushFee = 0, o_status = Paid, assigned_batch_id = None\<rparr>"

definition ex_o2 :: order where
  "ex_o2 = \<lparr>orderId = ''YI-000002'', o_zone = ''A'', address = Some ''12 main st'',
     baseFee = 25, rushFee = 30, o_status = Paid, assigned_batch_id = None\<rparr>"

definition ex_o3 :: order where
  "ex_o3 = \<lparr>orderId = ''YI-000003'', o_zone = ''B'', address = None,
     baseFee = 20, rushFee = 0, o_status = Approved, assigned_batch_id = None\<rparr>"


definition ex_d1 :: driver where
  "ex_d1 = \<lparr>d_id = ''DRV-000001'', d_name = ''Sam'', d_phone = ''27000000000'',
     d_zone = ''B'', is_active = True\<rparr>"

definition ex_state :: state where
  "ex_state = \<lparr>orders = [ex_o1, ex_o2, ex_o3], drivers = [ex_d1], batches = [], payouts = []\<rparr>"



definition ex_batch :: batch where
  "ex_batch = \<lparr>b_id = ''BAT-000000-42'', b_zone = ''A'', cluster_key = ''A::12 main st'',
     b_driver = ex_d1, b_orders = [''YI-000001'', ''YI-000002''], delivery_fee_each = 25,
     driver_earnings = 35, platform_delivery_margin = 15, b_status = BatchCompleted,
     started_at = 1609848000000, completed_at = Some 1609848000000\<rparr>"

definition ex_batch_state :: state where
  "ex_batch_state =
     \<lparr>orders = [ex_o1\<lparr>o_status := Assigned, assigned_batch_id := Some ''BAT-000000-42''\<rparr>,
        ex_o2\<lparr>o_status := Assigned, assigned_batch_id := Some ''BAT-000000-42''\<rparr>],
      drivers = [ex_d1],
      batches = [ex_batch\<lparr>b_status := BatchAssigned, completed_at := None\<rparr>],
      payouts = []\<rparr>"

definition ex_done_state :: state where
  "ex_done_state = \<lparr>orders = [ex_o1\<lparr>o_status := Delivered, assigned_batch_id := Some ''BAT-000000-42''\<rparr>,
        ex_o2\<lparr>o_status := Delivered, assigned_batch_id := Some ''BAT-000000-42''\<rparr>],
     drivers = [ex_d1], batches = [ex_batch], payouts = []\<rparr>"

section \<open>Properties\<close>

subsection \<open>Rounding\<close>

lemma Math_round_half_up: "Math_round x = round_half_up x"
proof -
  have "\<lfloor>x + 1 / 2\<rfloor> = (if x - of_int \<lfloor>x\<rfloor> < 1 / 2 then \<lfloor>x\<rfloor> else \<lfloor>x\<rfloor> + 1)"
    by (simp add: floor_eq_iff) linarith
  then show ?thesis
    by (simp add: Math_round_def round_half_up_def)
qed

lemma Math_round_of_int: "Math_round (of_int k) = k"
  unfolding Math_round_def by linarith




lemma Math_round_neg_of_int: "Math_round (- of_int k) = - k"
  using Math_round_of_int [of "- k"] by simp

lemma driverTotal_eq:
  "driverTotal (computeClusterEarnings n f) =
     Math_round (f * DRIVER_SHARE_FIRST + of_int (max 0 (n - 1)) * f * DRIVER_SHARE_NEXT)"
  by (simp add: computeClusterEarnings_def Let_def)




subsection \<open>Arrays\<close>

lemma findIndex_None_iff: "findIndex p xs = None \<longleftrightarrow> (\<forall>x\<in>set xs. \<not> p x)"
  by (induction xs) auto

lemma findIndex_Some:
  "findIndex p xs = Some i \<Longrightarrow> i < length xs \<and> p (xs ! i) \<and> (\<forall>j<i. \<not> p (xs ! j))"
proof (induction xs arbitrary: i)
  case Nil
  then show ?case by simp
next
  case (Cons x xs)
  show ?case
  proof (cases "p x")
    case True
    with Cons.prems show ?thesis by simp
  next
    case False
    with Cons.prems obtain k where k: "findIndex p xs = Some k" "i = Suc k"
      by auto
    from Cons.IH [OF k(1)] False k(2) show ?thesis
      by (auto simp: less_Suc_eq_0_disj)
  qed
qed




subsection \<open>Grouping\<close>

lemma push_group_keys:
  "set (map fst (push_group k od byKey)) = insert k (set (map fst byKey))"
proof (induction byKey)
  case Nil
  then show ?case by simp
next
  case (Cons kg byKey)
  obtain k' g where kg: "kg = (k', g)" by (cases kg)
  show ?case
  proof (cases "k' = k")
    case True
    with kg show ?thesis by auto
  next
    case False
    with kg Cons.IH show ?thesis by auto
  qed
qed

lemma push_group_distinct:
  "distinct (map fst byKey) \<Longrightarrow> distinct (map fst (push_group k od byKey))"
proof (induction byKey)
  case Nil
  then show ?case by simp
next
  case (Cons kg byKey)
  obtain k' g where kg: "kg = (k', g)" by (cases kg)
  show ?case
  proof (cases "k' = k")
    case True
    with Cons.prems kg show ?thesis by simp
  next
    case False
    have "k' \<notin> set (map fst (push_group k od byKey))"
      using Cons.prems kg False by (simp only: push_group_keys) auto
    with Cons kg False show ?thesis by simp
  qed
qed

lemma map_of_push_group:
  "map_of (push_group k od byKey) =
     (map_of byKey)(k \<mapsto> (case map_of byKey k of None \<Rightarrow> [od] | Some g \<Rightarrow> g @ [od]))"
  by (induction byKey) (auto simp: fun_eq_iff)

lemma group_candidates_distinct:
  "distinct (map fst byKey) \<Longrightarrow> distinct (map fst (group_candidates os byKey))"
  by (induction os arbitrary: byKey) (simp_all add: push_group_distinct)

lemma map_of_group_candidates:
  "map_of (group_candidates os byKey) k =
     (case map_of byKey k of
        None \<Rightarrow> (if filter (\<lambda>x. clusterKey x = k) os = [] then None
                 else Some (filter (\<lambda>x. clusterKey x = k) os))
      | Some g \<Rightarrow> Some (g @ filter (\<lambda>x. clusterKey x = k) os))"
proof (induction os arbitrary: byKey)
  case Nil
  then show ?case by (simp split: option.splits)
next
  case (Cons od os)
  show ?case
    by (simp add: Cons.IH map_of_push_group split: option.splits)
qed

lemma groups_iff:
  "(k, g) \<in> set (group_candidates os []) \<longleftrightarrow>
     g = filter (\<lambda>x. clusterKey x = k) os \<and> g \<noteq> []"
proof -
  have d: "distinct (map fst (group_candidates os []))"
    by (rule group_candidates_distinct) simp
  have "(k, g) \<in> set (group_candidates os []) \<longleftrightarrow> map_of (group_candidates os []) k = Some g"
    using d by simp
  also have "\<dots> \<longleftrightarrow> g = filter (\<lambda>x. clusterKey x = k) os \<and> g \<noteq> []"
    by (auto simp: map_of_group_candidates)
  finally show ?thesis .
qed

lemma group_of_member:
  "od \<in> set os \<Longrightarrow>
     (clusterKey od, filter (\<lambda>x. clusterKey x = clusterKey od) os) \<in> set (group_candidates os [])"
  by (auto simp: groups_iff filter_empty_conv)

subsection \<open>Drivers\<close>

lemma pickDriverForZone_None_iff: "pickDriverForZone ds zone = None \<longleftrightarrow> ds = []"
  by (auto simp: pickDriverForZone_def split: option.splits list.splits)

subsection \<open>Identifiers\<close>



subsection \<open>The assignment loop\<close>


lemma assign_loop_batches:
  "snd (assign_loop env ds groups (os, bs, cr)) =
     (bs @ new_batches env ds groups (length cr), cr @ new_batches env ds groups (length cr))"
proof (induction groups arbitrary: os bs cr)
  case Nil
  then show ?case by simp
next
  case (Cons kg groups)
  obtain k g where kg: "kg = (k, g)" by (cases kg)
  show ?case
    by (simp add: kg Cons.IH Let_def split: list.splits option.splits)
qed


lemma new_batches_complete:
  assumes "ds \<noteq> []" and "(k, first # grp) \<in> set groups"
  shows "\<exists>t drv. make_batch t k drv first (first # grp) \<in> set (new_batches env ds groups n)"
  using assms(2)
proof (induction groups arbitrary: n)
  case Nil
  then show ?case by simp
next
  case (Cons kg groups)
  obtain k' g where kg: "kg = (k', g)" by (cases kg)
  have pick: "\<And>z. \<exists>drv. pickDriverForZone ds z = Some drv"
    using assms(1) pickDriverForZone_None_iff [of ds] by (metis not_Some_eq)
  show ?case
  proof (cases "kg = (k, first # grp)")
    case True
    obtain drv where "pickDriverForZone ds (o_zone first) = Some drv"
      using pick by blast
    with True show ?thesis by auto
  next
    case False
    with Cons.prems have "(k, first # grp) \<in> set groups" by simp
    from Cons.IH [OF this] have ih: "\<And>m. \<exists>t drv. make_batch t k drv first (first # grp) \<in> set (new_batches env ds groups m)"
      by blast
    show ?thesis
    proof (cases g)
      case Nil
      with kg ih [of n] show ?thesis by simp
    next
      case g: (Cons f' g')
      obtain drv' where "pickDriverForZone ds (o_zone f') = Some drv'"
        using pick by blast
      with kg g ih [of "Suc n"] show ?thesis by auto
    qed
  qed
qed



subsection \<open>autoAssign\<close>

lemma autoAssign_eq:
  "autoAssign ed env st =
     (new_batches env (drivers st) (group_candidates (candidates ed (orders st)) []) 0,
      st\<lparr>orders := fst (assign_loop env (drivers st)
                (group_candidates (candidates ed (orders st)) []) (orders st, batches st, [])),
         batches := batches st @
           new_batches env (drivers st) (group_candidates (candidates ed (orders st)) []) 0\<rparr>)"
  by (simp add: autoAssign_def Let_def split_beta assign_loop_batches)










subsection \<open>completeBatch\<close>

lemma findIndex_map: "findIndex (\<lambda>x. p (f x)) xs = findIndex p (map f xs)"
  by (induction xs) simp_all

lemma findIndex_orderId_cong:
  "map orderId os' = map orderId os \<Longrightarrow>
     findIndex (\<lambda>x. orderId x = a) os' = findIndex (\<lambda>x. orderId x = a) os"
  using findIndex_map [of "\<lambda>i. i = a" orderId os'] findIndex_map [of "\<lambda>i. i = a" orderId os]
  by simp

lemma deliver_orders_Cons: "deliver_orders (oid # oids) os = deliver_orders oids (deliver_step oid os)"
  by (simp add: deliver_step_def)

lemma deliver_step_ids: "map orderId (deliver_step oid os) = map orderId os"
  by (auto simp: deliver_step_def map_update list_update_same_conv dest: findIndex_Some
      split: option.splits)

lemma deliver_step_keeps:
  "i < length os \<Longrightarrow> o_status (os ! i) = Delivered \<Longrightarrow> o_status (deliver_step oid os ! i) = Delivered"
proof (cases "findIndex (\<lambda>x. orderId x = oid) os")
  case None
  assume "o_status (os ! i) = Delivered"
  with None show ?thesis by (simp add: deliver_step_def)
next
  case (Some j)
  assume a: "i < length os" "o_status (os ! i) = Delivered"
  from findIndex_Some [OF Some] have "j < length os" by simp
  with a Some show ?thesis
    by (cases "i = j") (simp_all add: deliver_step_def)
qed

lemma deliver_step_sets:
  "findIndex (\<lambda>x. orderId x = oid) os = Some i \<Longrightarrow> o_status (deliver_step oid os ! i) = Delivered"
  by (auto simp: deliver_step_def dest: findIndex_Some)

lemma deliver_orders_ids: "map orderId (deliver_orders oids os) = map orderId os"
proof (induction oids arbitrary: os)
  case Nil
  then show ?case by simp
next
  case (Cons oid oids)
  show ?case
    unfolding deliver_orders_Cons by (simp add: Cons.IH deliver_step_ids)
qed

lemma deliver_orders_keeps:
  "i < length os \<Longrightarrow> o_status (os ! i) = Delivered \<Longrightarrow>
     o_status (deliver_orders oids os ! i) = Delivered"
proof (induction oids arbitrary: os)
  case Nil
  then show ?case by simp
next
  case (Cons oid oids)
  have "length (deliver_step oid os) = length os"
    using deliver_step_ids [of oid os] by (metis length_map)
  with Cons.prems show ?case
    unfolding deliver_orders_Cons by (intro Cons.IH deliver_step_keeps) simp_all
qed

lemma deliver_orders_sets:
  "oid \<in> set oids \<Longrightarrow> findIndex (\<lambda>x. orderId x = oid) os = Some i \<Longrightarrow>
     o_status (deliver_orders oids os ! i) = Delivered"
proof (induction oids arbitrary: os)
  case Nil
  then show ?case by simp
next
  case (Cons a oids)
  have len: "length (deliver_step a os) = length os"
    using deliver_step_ids [of a os] by (metis length_map)
  have i: "i < length os"
    using findIndex_Some [OF Cons.prems(2)] by simp
  show ?case
  proof (cases "a = oid")
    case True
    have "o_status (deliver_step a os ! i) = Delivered"
      using Cons.prems(2) True by (simp add: deliver_step_sets)
    with i len show ?thesis
      unfolding deliver_orders_Cons by (intro deliver_orders_keeps) simp_all
  next
    case False
    with Cons.prems(1) have m: "oid \<in> set oids" by simp
    have "findIndex (\<lambda>x. orderId x = oid) (deliver_step a os) = Some i"
      using Cons.prems(2) findIndex_orderId_cong [OF deliver_step_ids] by simp
    from Cons.IH [OF m this] show ?thesis
      unfolding deliver_orders_Cons .
  qed
qed

lemma findIndex_None_image: "findIndex (\<lambda>b. f b = a) xs = None \<longleftrightarrow> a \<notin> f ` set xs"
  by (auto simp: findIndex_None_iff)

subsection \<open>Payouts\<close>

lemma payout_loop_week:
  "(\<forall>p\<in>set out. week_label p = week) \<Longrightarrow>
     \<forall>p\<in>set (snd (payout_loop env week monday sunday grouped (ps, out))). week_label p = week"
proof (induction grouped arbitrary: ps out)
  case Nil
  then show ?case by simp
next
  case (Cons ig grouped)
  obtain ident g where ig: "ig = (ident, g)" by (cases ig)
  let ?p = "make_payout (env (length out)) week monday sunday ident g"
  have "\<forall>p\<in>set (out @ [?p]). week_label p = week"
    using Cons.prems by (simp add: make_payout_def)
  from Cons.IH [OF this] show ?case
    by (simp add: ig Let_def)
qed

lemma generateWeeklyPayouts_eq:
  "generateWeeklyPayouts env forDate st =
     (snd (payout_loop env (weekLabel (startOfMonday forDate)) (startOfMonday forDate)
            (endOfSunday (startOfMonday forDate))
            (group_batches (filter (inRange (startOfMonday forDate)
                (endOfSunday (startOfMonday forDate))) (batches st)) [])
            (payouts st, [])),
      st\<lparr>payouts := fst (payout_loop env (weekLabel (startOfMonday forDate)) (startOfMonday forDate)
            (endOfSunday (startOfMonday forDate))
            (group_batches (filter (inRange (startOfMonday forDate)
                (endOfSunday (startOfMonday forDate))) (batches st)) [])
            (payouts st, []))\<rparr>)"
  by (simp add: generateWeeklyPayouts_def Let_def split_beta)

subsection \<open>The week window\<close>

text \<open>
  The calendar on the dates of the examples: day 0 is Thursday 1 January 1970; the reference
  date of the examples is the sixth day of 2021, a Wednesday; its window starts on the
  fourth day of 2021; 1 January 2021 is a Friday.
\<close>

lemma example_dates:
  "DayFromYear 1970 = 0 \<and> getDay 0 = 4 \<and> getFullYear 0 = 1970
   \<and> getFullYear 1609927200000 = 2021 \<and> getDay 1609927200000 = 3
   \<and> Day 1609927200000 - DayFromYear 2021 = 5
   \<and> Day (startOfMonday 1609927200000) - DayFromYear 2021 = 3
   \<and> getDay (newDateJan1 2021) = 5"
  by code_simp

lemma msPerDay_pos: "0 < msPerDay"
  by (simp add: msPerDay_def)

lemma startOfMonday_eq:
  "startOfMonday d = (Day d - (Day d + 3) mod 7) * msPerDay"
proof -
  have "d - d mod msPerDay = Day d * msPerDay"
    by (simp add: Day_def minus_mod_eq_div_mult)
  moreover have "((Day d + 4) mod 7 + 6) mod 7 = (Day d + 3) mod 7"
    by presburger
  ultimately show ?thesis
    by (simp add: startOfMonday_def Let_def setHours_def addDays_def getDay_def algebra_simps)
qed

lemma Day_startOfMonday: "Day (startOfMonday d) = Day d - (Day d + 3) mod 7"
  using msPerDay_pos by (simp add: startOfMonday_eq Day_def [of "_ * msPerDay"])

lemma startOfMonday_is_Monday: "getDay (startOfMonday d) = 1"
  unfolding getDay_def Day_startOfMonday by presburger

lemma endOfSunday_eq: "endOfSunday (startOfMonday d) = startOfMonday d + 7 * msPerDay - 1"
proof -
  have "(startOfMonday d + 6 * msPerDay) mod msPerDay = 0"
    by (simp add: startOfMonday_eq)
  then show ?thesis
    by (simp add: endOfSunday_def setHours_def addDays_def) (simp add: msPerDay_def)
qed

lemma week_window:
  "startOfMonday d \<le> d \<and> d \<le> endOfSunday (startOfMonday d)"
proof -
  define q where "q = Day d"
  define r where "r = d mod msPerDay"
  have d: "d = q * msPerDay + r"
    by (simp add: q_def r_def Day_def)
  have r: "0 \<le> r" "r < msPerDay"
    using msPerDay_pos by (simp_all add: r_def)
  define m where "m = (q + 3) mod 7"
  have m: "0 \<le> m" "m \<le> 6"
    by (simp_all add: m_def)
  have s: "startOfMonday d = (q - m) * msPerDay"
    by (simp add: startOfMonday_eq q_def m_def)
  have mm: "0 \<le> m * msPerDay" "m * msPerDay \<le> 6 * msPerDay"
    using m msPerDay_pos by (simp_all add: mult_right_mono)
  have "q * msPerDay = d - r"
    using d by simp
  then have "startOfMonday d = d - r - m * msPerDay"
    unfolding s by (simp add: algebra_simps)
  with r mm show ?thesis
    unfolding endOfSunday_eq by linarith
qed

subsection \<open>Years\<close>

lemma year_up_upper: "d < DayFromYear (year_up y d + 1)"
proof (induction y d rule: year_up.induct)
  case (1 y d)
  show ?case
  proof (cases "DayFromYear (y + 1) \<le> d")
    case True
    with 1 show ?thesis by (subst year_up.simps) simp
  next
    case False
    then show ?thesis by (subst year_up.simps) simp
  qed
qed

lemma year_down_bounds:
  "d < DayFromYear (y + 1) \<Longrightarrow>
     DayFromYear (year_down y d) \<le> d \<and> d < DayFromYear (year_down y d + 1)"
proof (induction y d rule: year_down.induct)
  case (1 y d)
  show ?case
  proof (cases "d < DayFromYear y")
    case True
    with 1 show ?thesis by (subst (1 2) year_down.simps) simp
  next
    case False
    with 1 show ?thesis by (subst (1 2) year_down.simps) simp
  qed
qed

lemma YearFromDay_bounds:
  "DayFromYear (YearFromDay d) \<le> d \<and> d < DayFromYear (YearFromDay d + 1)"
  unfolding YearFromDay_def by (rule year_down_bounds) (rule year_up_upper)

lemma day_of_year_bounds:
  "0 \<le> d - DayFromYear (YearFromDay d) \<and> d - DayFromYear (YearFromDay d) \<le> 366"
  using YearFromDay_bounds [of d] DayFromYear_step_bounds [of "YearFromDay d"] by linarith

subsection \<open>The week number\<close>

lemma Day_mult: "Day (k * msPerDay) = k"
  using msPerDay_pos by (simp add: Day_def)

lemma ceil_div7: "\<lceil>(of_int x :: rat) / 7\<rceil> = (x + 6) div 7"
proof -
  have "\<lceil>(of_int x :: rat) / of_int 7\<rceil> = - (- x div 7)"
    by (rule ceiling_divide_eq_div)
  also have "\<dots> = (x + 6) div 7"
    by presburger
  finally show ?thesis by simp
qed

lemma weekNumber_aligned:
  assumes "\<not> (0 \<le> YearFromDay D \<and> YearFromDay D \<le> 99)"
  shows "weekNumber (D * msPerDay) =
     (D - DayFromYear (YearFromDay D) + (DayFromYear (YearFromDay D) + 4) mod 7 + 7) div 7"
proof -
  let ?y = "YearFromDay D"
  have y: "getFullYear (D * msPerDay) = ?y"
    by (simp add: getFullYear_def Day_mult)
  have j: "newDateJan1 ?y = DayFromYear ?y * msPerDay"
    using assms by (auto simp: newDateJan1_def)
  have "D * msPerDay - DayFromYear ?y * msPerDay = (D - DayFromYear ?y) * 86400000"
    by (simp add: msPerDay_def algebra_simps)
  then have "(of_int (D * msPerDay - DayFromYear ?y * msPerDay) :: rat) / 86400000
      = of_int (D - DayFromYear ?y)"
    by (simp only: of_int_mult) simp
  moreover have "getDay (DayFromYear ?y * msPerDay) = (DayFromYear ?y + 4) mod 7"
    by (simp add: getDay_def Day_mult)
  ultimately have "weekNumber (D * msPerDay) =
      \<lceil>(of_int (D - DayFromYear ?y) + of_int ((DayFromYear ?y + 4) mod 7) + 1 :: rat) / 7\<rceil>"
    by (simp only: weekNumber_def y j Let_def Math_ceil_def)
  also have "(of_int (D - DayFromYear ?y) + of_int ((DayFromYear ?y + 4) mod 7) + 1 :: rat)
      = of_int (D - DayFromYear ?y + (DayFromYear ?y + 4) mod 7 + 1)"
    by simp
  finally show ?thesis
    by (simp only: ceil_div7)
qed

lemma weekNumber_range:
  assumes "\<not> (0 \<le> YearFromDay D \<and> YearFromDay D \<le> 99)"
  shows "1 \<le> weekNumber (D * msPerDay) \<and> weekNumber (D * msPerDay) \<le> 54"
proof -
  define k where "k = D - DayFromYear (YearFromDay D)"
  define w where "w = (DayFromYear (YearFromDay D) + 4) mod 7"
  have k: "0 \<le> k" "k \<le> 366"
    using day_of_year_bounds [of D] by (simp_all add: k_def)
  have w: "0 \<le> w" "w \<le> 6"
    by (simp_all add: w_def)
  have "weekNumber (D * msPerDay) = (k + w + 7) div 7"
    using weekNumber_aligned [OF assms] by (simp add: k_def w_def)
  moreover have "1 \<le> (k + w + 7) div 7" "(k + w + 7) div 7 \<le> 54"
    using k w by presburger+
  ultimately show ?thesis by simp
qed

lemma show_int_two_digits:
  assumes "1 \<le> n" and "n \<le> 54"
  shows "length (padStart0 2 (show_int n)) = 2"
proof (cases "n < 10")
  case True
  with assms have "show_int n = [digit_char n]"
    by (simp add: show_int_def show_digits.simps)
  then show ?thesis by (simp add: padStart0_def)
next
  case False
  with assms have "n div 10 < 10" by presburger
  with False assms have "show_int n = [digit_char (n div 10), digit_char (n mod 10)]"
    by (simp add: show_int_def show_digits.simps [of n] show_digits.simps [of "n div 10"])
  then show ?thesis by (simp add: padStart0_def)
qed

lemma startOfMonday_aligned: "startOfMonday d = Day (startOfMonday d) * msPerDay"
  by (simp add: Day_startOfMonday) (simp add: startOfMonday_eq)

section \<open>The claims\<close>

subsection \<open>C1: eligibility for batching\<close>




subsection \<open>C2: driver earnings plus platform margin\<close>




subsection \<open>C3: paid orders become assigned\<close>



subsection \<open>C4: the week label of a payout\<close>

text \<open>
  The claim: every payout record carries the ISO-8601 year and week of the Monday that
  starts the window. For the reference date Wednesday 6 January 2021 the window starts on
  Monday 4 January 2021, which lies in ISO week 2021-W01; the payout is labelled 2021-W02.
\<close>

theorem payout_week_label_counterexample:
  "map week_label (fst (generateWeeklyPayouts ex_env 1609927200000 ex_done_state)) = [''2021-W02'']
   \<and> iso_week_label (startOfMonday 1609927200000) = ''2021-W01''"
  by code_simp

text \<open>
  C4, as the code has it. Every payout record created by generateWeeklyPayouts(referenceDate)
  carries the label \<open>year-Wweek\<close> of the Monday that starts the window: the year is the
  calendar year of that Monday, and the week is the number of days from 1 January of that
  year to the Monday, plus the weekday index of 1 January (Sunday is 0), plus 1, divided by 7
  and rounded up. For a year outside 0 to 99 the week lies between 1 and 54 and is printed
  with two digits. This count starts a week on Sunday and puts 1 January in week 1; it is
  not the ISO-8601 week.
\<close>

theorem payout_week_label:
  "(\<forall>p\<in>set (fst (generateWeeklyPayouts env forDate st)).
       week_label p = weekLabel (startOfMonday forDate))
   \<and> weekLabel (startOfMonday forDate) =
       show_int (getFullYear (startOfMonday forDate)) @ ''-W'' @
         padStart0 2 (show_int (weekNumber (startOfMonday forDate)))
   \<and> (\<not> (0 \<le> getFullYear (startOfMonday forDate) \<and> getFullYear (startOfMonday forDate) \<le> 99) \<longrightarrow>
        weekNumber (startOfMonday forDate) =
          (Day (startOfMonday forDate) - DayFromYear (getFullYear (startOfMonday forDate))
             + (DayFromYear (getFullYear (startOfMonday forDate)) + 4) mod 7 + 7) div 7
      \<and> 1 \<le> weekNumber (startOfMonday forDate)
      \<and> weekNumber (startOfMonday forDate) \<le> 54
      \<and> length (padStart0 2 (show_int (weekNumber (startOfMonday forDate)))) = 2)"
proof (intro conjI impI)
  show "\<forall>p\<in>set (fst (generateWeeklyPayouts env forDate st)).
       week_label p = weekLabel (startOfMonday forDate)"
    using payout_loop_week [of "[]" "weekLabel (startOfMonday forDate)" env]
    by (simp add: generateWeeklyPayouts_eq)
  show "weekLabel (startOfMonday forDate) =
       show_int (getFullYear (startOfMonday forDate)) @ ''-W'' @
         padStart0 2 (show_int (weekNumber (startOfMonday forDate)))"
    by (simp add: weekLabel_def)
next
  let ?m = "startOfMonday forDate"
  assume "\<not> (0 \<le> getFullYear ?m \<and> getFullYear ?m \<le> 99)"
  then have y: "\<not> (0 \<le> YearFromDay (Day ?m) \<and> YearFromDay (Day ?m) \<le> 99)"
    by (simp add: getFullYear_def)
  have al: "Day ?m * msPerDay = ?m"
    using startOfMonday_aligned [of forDate] by simp
  from weekNumber_aligned [OF y] show "weekNumber ?m =
          (Day ?m - DayFromYear (getFullYear ?m) + (DayFromYear (getFullYear ?m) + 4) mod 7 + 7) div 7"
    by (simp add: al getFullYear_def)
  from weekNumber_range [OF y] show r1: "1 \<le> weekNumber ?m" and r2: "weekNumber ?m \<le> 54"
    by (simp_all add: al)
  from r1 r2 show "length (padStart0 2 (show_int (weekNumber ?m))) = 2"
    by (rule show_int_two_digits)
qed

text \<open>For the reference date 6 January 2021: the year is 2021 and the week has two digits.\<close>

theorem payout_week_label_witness:
  "getFullYear (startOfMonday 1609927200000) = 2021
   \<and> weekNumber (startOfMonday 1609927200000) =
       (Day (startOfMonday 1609927200000) - DayFromYear 2021 + (DayFromYear 2021 + 4) mod 7 + 7) div 7
   \<and> 1 \<le> weekNumber (startOfMonday 1609927200000)
   \<and> weekNumber (startOfMonday 1609927200000) \<le> 54
   \<and> length (padStart0 2 (show_int (weekNumber (startOfMonday 1609927200000)))) = 2"
proof -
  have y: "getFullYear (startOfMonday 1609927200000) = 2021" by code_simp
  then have ny: "\<not> (0 \<le> getFullYear (startOfMonday 1609927200000)
      \<and> getFullYear (startOfMonday 1609927200000) \<le> 99)"
    by simp
  from payout_week_label [of ex_env 1609927200000 ex_done_state] ny
  have "weekNumber (startOfMonday 1609927200000) =
          (Day (startOfMonday 1609927200000)
             - DayFromYear (getFullYear (startOfMonday 1609927200000))
             + (DayFromYear (getFullYear (startOfMonday 1609927200000)) + 4) mod 7 + 7) div 7
      \<and> 1 \<le> weekNumber (startOfMonday 1609927200000)
      \<and> weekNumber (startOfMonday 1609927200000) \<le> 54
      \<and> length (padStart0 2 (show_int (weekNumber (startOfMonday 1609927200000)))) = 2"
    by blast
  then show ?thesis
    unfolding y using y by blast
qed

subsection \<open>C5: the earnings formula\<close>


subsection \<open>C6: a second run assigns nothing\<close>



subsection \<open>C7: completing a batch\<close>

text \<open>
  C7. completeBatch(batchId) returns false (not found) if and only if no batch has that
  identifier, and then the store is unchanged. Otherwise, with the first batch that has the
  identifier: for every order identifier of its order list, the order that the identifier
  finds in the store (the first with that identifier) has status delivered; the batch has
  status completed and the completion time of the call; the identifiers of the orders, the
  drivers and the payouts are as before.
\<close>

theorem completeBatch_spec:
  "(\<not> fst (completeBatch batchId now st)) = (batchId \<notin> b_id ` set (batches st))
   \<and> (batchId \<notin> b_id ` set (batches st) \<longrightarrow> snd (completeBatch batchId now st) = st)
   \<and> (\<forall>bIdx. findIndex (\<lambda>b. b_id b = batchId) (batches st) = Some bIdx \<longrightarrow>
        batches (snd (completeBatch batchId now st)) =
          (batches st)[bIdx := (batches st ! bIdx)
             \<lparr>b_status := BatchCompleted, completed_at := Some now\<rparr>]
      \<and> (\<forall>oid\<in>set (b_orders (batches st ! bIdx)). \<forall>i.
            findIndex (\<lambda>x. orderId x = oid) (orders st) = Some i \<longrightarrow>
            o_status (orders (snd (completeBatch batchId now st)) ! i) = Delivered)
      \<and> map orderId (orders (snd (completeBatch batchId now st))) = map orderId (orders st)
      \<and> drivers (snd (completeBatch batchId now st)) = drivers st
      \<and> payouts (snd (completeBatch batchId now st)) = payouts st)"
proof (cases "findIndex (\<lambda>b. b_id b = batchId) (batches st)")
  case None
  then have "batchId \<notin> b_id ` set (batches st)"
    by (simp add: findIndex_None_image)
  with None show ?thesis
    by (simp add: completeBatch_def)
next
  case (Some bIdx)
  then have "batchId \<in> b_id ` set (batches st)"
    using findIndex_None_image [of b_id batchId "batches st"] by auto
  with Some show ?thesis
    by (simp add: completeBatch_def Let_def deliver_orders_sets deliver_orders_ids)
qed

text \<open>
  On the store with one batch: completing it delivers the order \<open>YI-000002\<close>; an unknown
  identifier changes nothing.
\<close>

theorem completeBatch_spec_witness:
  "findIndex (\<lambda>b. b_id b = ''BAT-000000-42'') (batches ex_batch_state) = Some 0
   \<and> ''YI-000002'' \<in> set (b_orders (batches ex_batch_state ! 0))
   \<and> findIndex (\<lambda>x. orderId x = ''YI-000002'') (orders ex_batch_state) = Some 1
   \<and> o_status (orders ex_batch_state ! 1) = Assigned
   \<and> o_status (orders (snd (completeBatch ''BAT-000000-42'' 1609848000000 ex_batch_state)) ! 1)
       = Delivered
   \<and> ''BAT-999999-1'' \<notin> b_id ` set (batches ex_batch_state)
   \<and> snd (completeBatch ''BAT-999999-1'' 1609848000000 ex_batch_state) = ex_batch_state"
proof -
  have a: "findIndex (\<lambda>b. b_id b = ''BAT-000000-42'') (batches ex_batch_state) = Some 0"
    by code_simp
  have b: "''YI-000002'' \<in> set (b_orders (batches ex_batch_state ! 0))" by code_simp
  have c: "findIndex (\<lambda>x. orderId x = ''YI-000002'') (orders ex_batch_state) = Some 1"
    by code_simp
  have s: "o_status (orders ex_batch_state ! 1) = Assigned" by code_simp
  have e: "''BAT-999999-1'' \<notin> b_id ` set (batches ex_batch_state)" by code_simp
  from completeBatch_spec [of "''BAT-000000-42''" 1609848000000 ex_batch_state] a b c
  have "o_status (orders (snd (completeBatch ''BAT-000000-42'' 1609848000000 ex_batch_state)) ! 1)
       = Delivered"
    by blast
  moreover from completeBatch_spec [of "''BAT-999999-1''" 1609848000000 ex_batch_state] e
  have "snd (completeBatch ''BAT-999999-1'' 1609848000000 ex_batch_state) = ex_batch_state"
    by blast
  ultimately show ?thesis using a b c s e by simp
qed

subsection \<open>C8: one completed batch, one payout\<close>

text \<open>
  C8. The window of a reference date starts on a Monday at 00:00:00.000, ends seven days
  later less one millisecond and contains the reference date. If exactly one batch of the
  store is completed with its completion time in that window, generateWeeklyPayouts
  returns exactly one payout record and appends exactly that record to the payouts; its
  earnings are the driver earnings of the batch, its driver is the driver of the batch, and
  it counts one batch and the orders of that batch.
\<close>

theorem single_batch_payout:
  assumes "filter (inRange (startOfMonday forDate) (endOfSunday (startOfMonday forDate)))
             (batches st) = [b]"
  shows "getDay (startOfMonday forDate) = 1
       \<and> startOfMonday forDate mod msPerDay = 0
       \<and> endOfSunday (startOfMonday forDate) = startOfMonday forDate + 7 * msPerDay - 1
       \<and> startOfMonday forDate \<le> forDate
       \<and> forDate \<le> endOfSunday (startOfMonday forDate)
       \<and> (\<exists>p. fst (generateWeeklyPayouts env forDate st) = [p]
           \<and> payouts (snd (generateWeeklyPayouts env forDate st)) = payouts st @ [p]
           \<and> p_earnings p = driver_earnings b
           \<and> p_driver p = b_driver b
           \<and> batches_count p = 1
           \<and> orders_count p = length (b_orders b)
           \<and> p_status p = PayoutPending)"
proof -
  let ?monday = "startOfMonday forDate"
  let ?sunday = "endOfSunday ?monday"
  let ?g = "bump_group \<lparr>g_driver = b_driver b, g_earnings = 0, g_batches = 0, g_orders = 0\<rparr> b"
  let ?p = "make_payout (env 0) (weekLabel ?monday) ?monday ?sunday (d_id (b_driver b)) ?g"
  have res: "generateWeeklyPayouts env forDate st = ([?p], st\<lparr>payouts := payouts st @ [?p]\<rparr>)"
    by (simp add: generateWeeklyPayouts_eq assms Let_def)
  have "p_earnings ?p = driver_earnings b"
    by (simp add: make_payout_def bump_group_def Math_round_of_int)
  moreover have "p_driver ?p = b_driver b" "batches_count ?p = 1"
      "orders_count ?p = length (b_orders b)" "p_status ?p = PayoutPending"
    by (simp_all add: make_payout_def bump_group_def)
  ultimately have payout: "\<exists>p. fst (generateWeeklyPayouts env forDate st) = [p]
           \<and> payouts (snd (generateWeeklyPayouts env forDate st)) = payouts st @ [p]
           \<and> p_earnings p = driver_earnings b
           \<and> p_driver p = b_driver b
           \<and> batches_count p = 1
           \<and> orders_count p = length (b_orders b)
           \<and> p_status p = PayoutPending"
    unfolding res by simp
  have "?monday mod msPerDay = 0"
    by (simp add: startOfMonday_eq)
  with payout startOfMonday_is_Monday [of forDate] endOfSunday_eq [of forDate]
    week_window [of forDate]
  show ?thesis by blast
qed

text \<open>
  On the store with one completed batch, for the reference date 6 January 2021: one payout
  of 35, the driver earnings of the batch.
\<close>

theorem single_batch_payout_witness:
  "filter (inRange (startOfMonday 1609927200000) (endOfSunday (startOfMonday 1609927200000)))
     (batches ex_done_state) = [ex_batch]
   \<and> (\<exists>p. fst (generateWeeklyPayouts ex_env 1609927200000 ex_done_state) = [p]
         \<and> payouts (snd (generateWeeklyPayouts ex_env 1609927200000 ex_done_state)) =
             payouts ex_done_state @ [p]
         \<and> p_earnings p = 35)"
proof -
  have f: "filter (inRange (startOfMonday 1609927200000) (endOfSunday (startOfMonday 1609927200000)))
     (batches ex_done_state) = [ex_batch]"
    by code_simp
  have e: "driver_earnings ex_batch = 35" by code_simp
  from single_batch_payout [OF f, of ex_env] obtain p where
    "fst (generateWeeklyPayouts ex_env 1609927200000 ex_done_state) = [p]"
    "payouts (snd (generateWeeklyPayouts ex_env 1609927200000 ex_done_state)) =
        payouts ex_done_state @ [p]"
    "p_earnings p = driver_earnings ex_batch"
    by blast
  with e have "fst (generateWeeklyPayouts ex_env 1609927200000 ex_done_state) = [p]
         \<and> payouts (snd (generateWeeklyPayouts ex_env 1609927200000 ex_done_state)) =
             payouts ex_done_state @ [p]
         \<and> p_earnings p = 35"
    by simp
  then have "\<exists>p. fst (generateWeeklyPayouts ex_env 1609927200000 ex_done_state) = [p]
         \<and> payouts (snd (generateWeeklyPayouts ex_env 1609927200000 ex_done_state)) =
             payouts ex_done_state @ [p]
         \<and> p_earnings p = 35"
    by (rule exI)
  with f show ?thesis by simp
qed

subsection \<open>C9: equal normalised addresses share a batch\<close>

text \<open>
  C9. Two orders with the same zone whose addresses are equal after lower-casing,
  collapsing white space and trimming have the same cluster key; and when both are in the
  store and eligible for assignment, and the driver directory is not empty, a single run of
  autoAssign() creates a batch whose order list holds the identifiers of both. The
  statement holds in both editions.
\<close>

theorem same_cluster_same_batch:
  assumes "o_zone o1 = o_zone o2"
    and "normalized_address o1 = normalized_address o2"
  shows "clusterKey o1 = clusterKey o2
       \<and> (\<forall>ed env st. o1 \<in> set (orders st) \<and> o2 \<in> set (orders st)
              \<and> eligible ed o1 \<and> eligible ed o2 \<and> drivers st \<noteq> [] \<longrightarrow>
            (\<exists>b\<in>set (fst (autoAssign ed env st)).
                orderId o1 \<in> set (b_orders b) \<and> orderId o2 \<in> set (b_orders b)))"
proof -
  have key: "clusterKey o1 = clusterKey o2"
    using assms by (simp add: clusterKey_def normalized_address_def Let_def)
  have "\<exists>b\<in>set (fst (autoAssign ed env st)).
          orderId o1 \<in> set (b_orders b) \<and> orderId o2 \<in> set (b_orders b)"
    if m: "o1 \<in> set (orders st)" "o2 \<in> set (orders st)"
      and e: "eligible ed o1" "eligible ed o2" and ds: "drivers st \<noteq> []"
    for ed env st
  proof -
    let ?cs = "candidates ed (orders st)"
    let ?g = "filter (\<lambda>x. clusterKey x = clusterKey o1) ?cs"
    from m e have c: "o1 \<in> set ?cs" "o2 \<in> set ?cs"
      by (simp_all add: candidates_def)
    have in_g: "o1 \<in> set ?g" "o2 \<in> set ?g"
      using c key by simp_all
    have grp: "(clusterKey o1, ?g) \<in> set (group_candidates ?cs [])"
      by (rule group_of_member [OF c(1)])
    from in_g(1) obtain first rest where fr: "?g = first # rest"
      by (cases ?g) auto
    from new_batches_complete [OF ds, of "clusterKey o1" first rest "group_candidates ?cs []" env 0]
      grp fr
    obtain t drv where "make_batch t (clusterKey o1) drv first (first # rest)
        \<in> set (new_batches env (drivers st) (group_candidates ?cs []) 0)"
      by auto
    then have b: "make_batch t (clusterKey o1) drv first ?g \<in> set (fst (autoAssign ed env st))"
      by (simp add: autoAssign_eq fr)
    have "b_orders (make_batch t (clusterKey o1) drv first ?g) = map orderId ?g"
      by (simp add: make_batch_def Let_def)
    with in_g have "orderId o1 \<in> set (b_orders (make_batch t (clusterKey o1) drv first ?g))"
      "orderId o2 \<in> set (b_orders (make_batch t (clusterKey o1) drv first ?g))"
      by simp_all
    with b show ?thesis by blast
  qed
  with key show ?thesis by blast
qed

text \<open>
  On the example store the addresses \<open>12  Main St\<close> (two spaces, capitals, a trailing space)
  and \<open>12 main st\<close> differ as written and are equal once normalised; both orders are in one
  batch.
\<close>

theorem same_cluster_same_batch_witness:
  "o_zone ex_o1 = o_zone ex_o2
   \<and> address ex_o1 \<noteq> address ex_o2
   \<and> normalized_address ex_o1 = normalized_address ex_o2
   \<and> clusterKey ex_o1 = clusterKey ex_o2
   \<and> (\<exists>b\<in>set (fst (autoAssign Part000 ex_env ex_state)).
         orderId ex_o1 \<in> set (b_orders b) \<and> orderId ex_o2 \<in> set (b_orders b))"
proof -
  have z: "o_zone ex_o1 = o_zone ex_o2" by code_simp
  have a: "address ex_o1 \<noteq> address ex_o2" by code_simp
  have n: "normalized_address ex_o1 = normalized_address ex_o2" by code_simp
  have m: "ex_o1 \<in> set (orders ex_state)" "ex_o2 \<in> set (orders ex_state)"
    by (simp_all add: ex_state_def)
  have e: "eligible Part000 ex_o1" "eligible Part000 ex_o2" by code_simp+
  have d: "drivers ex_state \<noteq> []" by (simp add: ex_state_def)
  from same_cluster_same_batch [OF z n] m e d
  have "clusterKey ex_o1 = clusterKey ex_o2"
    "\<exists>b\<in>set (fst (autoAssign Part000 ex_env ex_state)).
         orderId ex_o1 \<in> set (b_orders b) \<and> orderId ex_o2 \<in> set (b_orders b)"
    by blast+
  with z a n show ?thesis by simp
qed

subsection \<open>C10: a cluster of zero orders\<close>

text \<open>
  The claim: for every fee f, computeClusterEarnings(0, f) returns driverTotal = round(f)
  and platformMargin = -round(f), a negative platform margin. The two values are as
  claimed, but the margin is not negative for every fee: for the fee 0 it is 0.
\<close>

theorem computeClusterEarnings_zero_orders_counterexample:
  "computeClusterEarnings 0 0 = \<lparr>driverTotal = 0, platformDeliveryMargin = 0\<rparr>
   \<and> \<not> platformDeliveryMargin (computeClusterEarnings 0 0) < 0"
  by code_simp

text \<open>
  C10, as the code has it. For every fee f, computeClusterEarnings(0, f) does not fail (the
  function is total): it returns driverTotal = round(f), the full first-stop share although
  there is no order, and platformMargin = -round(f). The margin is negative exactly for the
  fees of at least one half, those that round to a positive amount.
\<close>

theorem computeClusterEarnings_zero_orders:
  "computeClusterEarnings 0 f =
     \<lparr>driverTotal = round_half_up f, platformDeliveryMargin = - round_half_up f\<rparr>
   \<and> (platformDeliveryMargin (computeClusterEarnings 0 f) < 0) = (1 / 2 \<le> f)"
proof -
  have val: "computeClusterEarnings 0 f =
     \<lparr>driverTotal = Math_round f, platformDeliveryMargin = - Math_round f\<rparr>"
    by (simp add: computeClusterEarnings_def Let_def DRIVER_SHARE_FIRST_def
        Math_round_neg_of_int)
  have "(0 < Math_round f) = (1 / 2 \<le> f)"
    unfolding Math_round_def by linarith
  with val show ?thesis
    by (simp add: Math_round_half_up)
qed

end
